theory Spec2Isabelle
  imports Complex_Main "HOL-Library.Word" "HOL-Library.Multiset"
begin

section \<open>Python values shared by both modules\<close>

text \<open>Exceptions of the Python runtime and of numpy that the modelled code can raise.\<close>

datatype error = ValueError | IndexError | KeyError | AttributeError | TypeError

text \<open>
  A Python slice \<open>xs[lo:hi]\<close> with integer bounds: a negative bound counts from the
  end, and both bounds are clamped to the sequence, so a slice never raises.
\<close>

definition slice_bound :: "nat \<Rightarrow> int \<Rightarrow> nat" where
  "slice_bound n i = (if i < 0 then nat (max 0 (int n + i)) else min n (nat i))"

definition py_slice :: "'a list \<Rightarrow> int \<Rightarrow> int \<Rightarrow> 'a list" where
  "py_slice xs lo hi =
     (let a = slice_bound (length xs) lo; b = slice_bound (length xs) hi
      in take (b - a) (drop a xs))"

definition slice_to :: "'a list \<Rightarrow> int \<Rightarrow> 'a list" where
  "slice_to xs hi = take (slice_bound (length xs) hi) xs"

definition slice_from :: "'a list \<Rightarrow> int \<Rightarrow> 'a list" where
  "slice_from xs lo = drop (slice_bound (length xs) lo) xs"

text \<open>Indexing \<open>xs[i]\<close>: a negative index counts from the end, out of range raises.\<close>

definition py_index :: "'a list \<Rightarrow> int \<Rightarrow> error + 'a" where
  "py_index xs i =
     (if 0 \<le> i \<and> i < int (length xs) then Inr (xs ! nat i)
      else if i < 0 \<and> - int (length xs) \<le> i then Inr (xs ! nat (int (length xs) + i))
      else Inl IndexError)"

section \<open>Variant effect prediction: \<open>_variant_effect_prediction.py\<close>\<close>

subsection \<open>\<open>_get_ref_idxs\<close>\<close>

text \<open>
  \<open>mid\<close> and \<open>ref_len\<close> are Python ints, \<open>strand\<close> is a Python string; \<open>//\<close> is
  floor division, which is \<open>div\<close> on \<open>int\<close>.
\<close>

definition get_ref_idxs :: "int \<Rightarrow> string \<Rightarrow> int \<Rightarrow> int \<times> int" where
  "get_ref_idxs mid strand ref_len =
     (let start_pos =
            (if strand = ''-'' \<and> ref_len > 1 then mid - (ref_len + 1) div 2 + 1
             else if strand = ''+'' \<and> ref_len = 1 then mid - 1
             else if strand = ''+'' then mid - ref_len div 2 - 1
             else mid);
          end_pos = start_pos + ref_len
      in (start_pos, end_pos))"

subsection \<open>The reference-sequence collaborator\<close>

text \<open>
  \<open>reference_sequence\<close> is an object of a class outside this module. The code calls
  three of its methods; they are taken as the fields of a record, \<open>'e\<close> being the type
  of an encoded sequence. \<open>get_sequence_from_coords\<close> takes the chromosome, the start,
  the end, the strand and the \<open>pad\<close> flag.
\<close>

record 'e reference_sequence =
  get_sequence_from_coords :: "string \<Rightarrow> int \<Rightarrow> int \<Rightarrow> string \<Rightarrow> bool \<Rightarrow> string"
  sequence_to_encoding :: "string \<Rightarrow> 'e"
  encoding_to_sequence :: "'e \<Rightarrow> string"

subsection \<open>\<open>_process_alt\<close>\<close>

text \<open>
  Modelled from the spec: \<open>_truncate_sequence\<close> is imported from \<open>_common\<close>, whose
  source is not available. The spec says that the sequence is truncated to the window
  length and that the extra bases at the far end are dropped, without re-centring.
\<close>

definition truncate_sequence :: "string \<Rightarrow> nat \<Rightarrow> string" where
  "truncate_sequence sequence input_length = take input_length sequence"

text \<open>Line 128: the markers \<open>*\<close> and \<open>-\<close> of a deletion stand for the empty allele.\<close>

definition deletion_marker_to_empty :: "string \<Rightarrow> string" where
  "deletion_marker_to_empty alt = (if alt = ''*'' \<or> alt = ''-'' then '''' else alt)"

text \<open>
  The text \<open>sequence\<close> that \<open>_process_alt\<close> reconstructs (lines 128 to 158), and the
  function itself, which returns the encoding of that text. \<open>math.ceil(n / 2.)\<close> is
  the ceiling of the real quotient.
\<close>

definition process_alt_sequence ::
  "string \<Rightarrow> int \<Rightarrow> string \<Rightarrow> string \<Rightarrow> int \<Rightarrow> int \<Rightarrow> string \<Rightarrow> string \<Rightarrow> int
     \<Rightarrow> 'e reference_sequence \<Rightarrow> string" where
  "process_alt_sequence chrom pos ref alt0 start end strand wt_sequence start_radius rs =
     (let alt = deletion_marker_to_empty alt0;
          ref_len = int (length ref);
          alt_len = int (length alt)
      in if alt_len > int (length wt_sequence)
           then truncate_sequence alt (length wt_sequence)
         else if ref_len = alt_len
           then (let (start_pos, end_pos) = get_ref_idxs start_radius strand ref_len
                 in slice_to wt_sequence start_pos @ alt @ slice_from wt_sequence end_pos)
         else if alt_len > ref_len
           then (let (start_pos, end_pos) = get_ref_idxs start_radius strand ref_len
                 in truncate_sequence
                      (slice_to wt_sequence start_pos @ alt
                         @ slice_from wt_sequence (start_pos + ref_len))
                      (length wt_sequence))
         else (let lhs = get_sequence_from_coords rs chrom
                           (start - ref_len div 2 + alt_len div 2) (pos + 1) strand True;
                   rhs = get_sequence_from_coords rs chrom
                           (pos + 1 + ref_len)
                           (end + \<lceil>real_of_int ref_len / 2\<rceil> - \<lceil>real_of_int alt_len / 2\<rceil>)
                           strand True
               in if strand = ''-'' then rhs @ alt @ lhs else lhs @ alt @ rhs))"

definition process_alt ::
  "string \<Rightarrow> int \<Rightarrow> string \<Rightarrow> string \<Rightarrow> int \<Rightarrow> int \<Rightarrow> string \<Rightarrow> string \<Rightarrow> int
     \<Rightarrow> 'e reference_sequence \<Rightarrow> 'e" where
  "process_alt chrom pos ref alt start end strand wt_sequence start_radius rs =
     sequence_to_encoding rs
       (process_alt_sequence chrom pos ref alt start end strand wt_sequence start_radius rs)"

subsection \<open>\<open>_handle_standard_ref\<close>\<close>

text \<open>
  An encoding is a two-dimensional numpy array with one row per base; it is a list of
  rows, \<open>'r\<close> being the type of a row, so that both encodings have rows of one width.
  \<open>np.array_equal\<close> is then equality of the lists (same number of rows, same rows).

  The assignment \<open>a[lo:hi, :] = v\<close> writes \<open>v\<close> over the selected rows when \<open>v\<close> has as
  many rows as are selected, repeats the row of a one-row \<open>v\<close> (broadcasting), and
  raises \<open>ValueError\<close> otherwise.
\<close>

definition assign_rows :: "'r list \<Rightarrow> int \<Rightarrow> int \<Rightarrow> 'r list \<Rightarrow> error + 'r list" where
  "assign_rows xs lo hi v =
     (let a = slice_bound (length xs) lo; b = slice_bound (length xs) hi; k = b - a
      in if length v = k then Inr (take a xs @ v @ drop (a + k) xs)
         else if length v = 1 then Inr (take a xs @ replicate k (hd v) @ drop (a + k) xs)
         else Inl ValueError)"

text \<open>
  The function mutates \<open>seq_encoding\<close> in place and returns it; the model returns the
  new array. The text \<open>sequence_at_ref\<close> is computed before the assignment.
\<close>

definition handle_standard_ref ::
  "'r list \<Rightarrow> 'r list \<Rightarrow> int \<Rightarrow> ('r list) reference_sequence \<Rightarrow> string
     \<Rightarrow> error + (bool \<times> 'r list \<times> string)" where
  "handle_standard_ref ref_encoding seq_encoding mid rs strand =
     (let ref_len = int (length ref_encoding);
          (start_pos, end_pos) = get_ref_idxs mid strand ref_len;
          sequence_encoding_at_ref = py_slice seq_encoding start_pos (start_pos + ref_len);
          sequence_at_ref = encoding_to_sequence rs sequence_encoding_at_ref;
          references_match = (sequence_encoding_at_ref = ref_encoding)
      in if \<not> references_match
           then (case assign_rows seq_encoding start_pos (start_pos + ref_len) ref_encoding of
                   Inl e \<Rightarrow> Inl e
                 | Inr seq_encoding' \<Rightarrow> Inr (references_match, seq_encoding', sequence_at_ref))
         else Inr (references_match, seq_encoding, sequence_at_ref))"

subsection \<open>Two concrete collaborators\<close>

text \<open>
  Two reference-sequence objects on which the functions can be run: one encodes a text
  as itself, the other encodes each base as a row of its own.
\<close>

definition rs0 :: "string reference_sequence" where
  "rs0 = \<lparr>get_sequence_from_coords = (\<lambda>chrom start end strand pad. ''''),
          sequence_to_encoding = (\<lambda>s. s), encoding_to_sequence = (\<lambda>e. e)\<rparr>"

definition rs1 :: "(string list) reference_sequence" where
  "rs1 = \<lparr>get_sequence_from_coords = (\<lambda>chrom start end strand pad. ''''),
          sequence_to_encoding = map (\<lambda>c. [c]), encoding_to_sequence = concat\<rparr>"

subsection \<open>\<open>read_vcf_file\<close>\<close>

text \<open>
  The file is the list of its lines, as \<open>readlines()\<close> returns them. A character is
  a code point below 256. The string methods the function uses follow.

  \<open>str.strip()\<close> removes the white space at both ends; the white-space characters
  below 256 are the code points 9 to 13, 28 to 32, 133 and 160.
\<close>

definition is_space :: "char \<Rightarrow> bool" where
  "is_space c =
     (let n = (of_char c :: nat)
      in (9 \<le> n \<and> n \<le> 13) \<or> (28 \<le> n \<and> n \<le> 32) \<or> n = 133 \<or> n = 160)"

definition strip :: "string \<Rightarrow> string" where
  "strip s = rev (dropWhile is_space (rev (dropWhile is_space s)))"

text \<open>\<open>s.split(sep)\<close> for a separator of one character: at least one piece.\<close>

fun split_on :: "char \<Rightarrow> string \<Rightarrow> string list" where
  "split_on sep [] = ['''']"
| "split_on sep (c # cs) =
     (if c = sep then [] # split_on sep cs
      else (case split_on sep cs of
              [] \<Rightarrow> [c # []]
            | piece # pieces \<Rightarrow> (c # piece) # pieces))"


text \<open>
  \<open>int(s)\<close> for a string: white space around, an optional sign, then decimal digits,
  where a single underscore may stand between two digits; anything else raises
  \<open>ValueError\<close>, here \<open>None\<close>.
\<close>

definition is_digit :: "char \<Rightarrow> bool" where
  "is_digit c = (48 \<le> (of_char c :: nat) \<and> (of_char c :: nat) \<le> 57)"

fun digits_value :: "bool \<Rightarrow> nat \<Rightarrow> string \<Rightarrow> nat option" where
  "digits_value after_digit acc [] = (if after_digit then Some acc else None)"
| "digits_value after_digit acc (c # cs) =
     (if is_digit c then digits_value True (10 * acc + (of_char c - 48)) cs
      else if c = CHR ''_'' \<and> after_digit \<and> cs \<noteq> [] \<and> is_digit (hd cs)
        then digits_value False acc cs
      else None)"

definition py_int :: "string \<Rightarrow> int option" where
  "py_int s =
     (case strip s of
        [] \<Rightarrow> None
      | c # cs \<Rightarrow>
          if c = CHR ''-'' then map_option (\<lambda>n. - int n) (digits_value False 0 cs)
          else if c = CHR ''+'' then map_option int (digits_value False 0 cs)
          else map_option int (digits_value False 0 (c # cs)))"


text \<open>\<open>line.strip().split('\t')\<close>; the tabulator is the character 9.\<close>

definition columns :: "string \<Rightarrow> string list" where
  "columns line = split_on (char_of (9::nat)) (strip line)"






subsection \<open>Example lines of a VCF file\<close>

text \<open>Columns joined by tabulators, and lines closed by a line feed (character 10).\<close>

fun tab_joined :: "string list \<Rightarrow> string" where
  "tab_joined [] = []"
| "tab_joined [c] = c"
| "tab_joined (c # d # cs) = c @ char_of (9::nat) # tab_joined (d # cs)"





section \<open>Interval sampling: \<open>intervals_sampler.py\<close>\<close>

subsection \<open>Floating-point values\<close>

text \<open>
  A numpy \<open>float64\<close> value is a finite value or one of the three special values of
  IEEE arithmetic. A finite value is taken as an exact real number: rounding is not
  modelled. Python's ints are unbounded; the overflow of numpy's 64-bit integers in
  \<open>np.sum\<close> is not modelled either.
\<close>

datatype npfloat = Finite real | PosInf | NegInf | NaN

text \<open>
  An element of \<open>select_interval_lens / float(np.sum(select_interval_lens))\<close>: numpy
  divides by zero without raising, and gives an infinity or a NaN.
\<close>

definition true_divide :: "int \<Rightarrow> int \<Rightarrow> npfloat" where
  "true_divide len denom =
     (if denom \<noteq> 0 then Finite (real_of_int len / real_of_int denom)
      else if 0 < len then PosInf
      else if len < 0 then NegInf
      else NaN)"

text \<open>The test \<open>weight > 1e-10\<close>; every comparison with a NaN is false.\<close>

definition above_threshold :: "npfloat \<Rightarrow> bool" where
  "above_threshold weight =
     (case weight of
        Finite r \<Rightarrow> 1 / 10 ^ 10 < r
      | PosInf \<Rightarrow> True
      | NegInf \<Rightarrow> False
      | NaN \<Rightarrow> False)"

subsection \<open>\<open>_get_indices_and_probabilities\<close>\<close>

text \<open>
  \<open>np.array(interval_lengths)[indices]\<close>: an index beyond the table raises
  \<open>IndexError\<close>. The indices are positions produced by \<open>range\<close> and \<open>enumerate\<close>,
  hence natural numbers.
\<close>

definition select_interval_lens :: "int list \<Rightarrow> nat list \<Rightarrow> error + int list" where
  "select_interval_lens interval_lengths indices =
     (if list_all (\<lambda>i. i < length interval_lengths) indices
      then Inr (map ((!) interval_lengths) indices)
      else Inl IndexError)"

definition length_weights :: "int list \<Rightarrow> npfloat list" where
  "length_weights select_lens = map (\<lambda>len. true_divide len (sum_list select_lens)) select_lens"

text \<open>Lines 36 to 39: the indices whose weight passes the threshold, in order.\<close>

definition keep_indices :: "nat list \<Rightarrow> npfloat list \<Rightarrow> nat list" where
  "keep_indices indices weights =
     map fst (filter (\<lambda>(index, weight). above_threshold weight) (zip indices weights))"

function get_indices_and_probabilities ::
  "int list \<Rightarrow> nat list \<Rightarrow> error + (nat list \<times> npfloat list)" where
  "get_indices_and_probabilities interval_lengths indices =
     (case select_interval_lens interval_lengths indices of
        Inl e \<Rightarrow> Inl e
      | Inr select_lens \<Rightarrow>
          (let weights = length_weights select_lens;
               keep = keep_indices indices weights
           in if length keep = length indices then Inr (indices, weights)
              else get_indices_and_probabilities interval_lengths keep))"
  by pat_completeness auto
termination
proof (relation "measure (\<lambda>(interval_lengths, indices). length indices)")
  show "wf (measure (\<lambda>(interval_lengths :: int list, indices :: nat list). length indices))"
    by simp
next
  fix interval_lengths :: "int list" and indices :: "nat list" and select_lens weights keep
  assume "weights = length_weights select_lens" and "keep = keep_indices indices weights"
    and "length keep \<noteq> length indices"
  moreover have "length (keep_indices indices weights) \<le> length (zip indices weights)"
    unfolding keep_indices_def length_map by (rule length_filter_le)
  ultimately have "length keep < length indices"
    by simp
  then show "((interval_lengths, keep), (interval_lengths, indices))
               \<in> measure (\<lambda>(interval_lengths, indices). length indices)"
    by simp
qed

declare get_indices_and_probabilities.simps [simp del]

text \<open>
  The indices that one pass of the function keeps, written as a filter of the
  candidate list; \<open>keep_indices\<close> computes this list from the weights.
\<close>

definition kept :: "int list \<Rightarrow> nat list \<Rightarrow> nat list" where
  "kept lens idxs =
     filter (\<lambda>i. above_threshold (true_divide (lens ! i) (sum_list (map ((!) lens) idxs)))) idxs"

subsection \<open>The state of an \<open>IntervalsSampler\<close>\<close>

text \<open>
  \<open>SampleIndices\<close> is the named tuple of the index list of a mode and its weights.
  An entry of \<open>_randcache\<close> is a dictionary with the key \<open>sample_next\<close> and, once the
  cache has been filled, the key \<open>cache_indices\<close>.
\<close>

record sample_indices =
  indices :: "nat list"
  weights :: "npfloat list"

record randcache_entry =
  cache_indices :: "nat list option"
  sample_next :: nat

text \<open>
  A holdout is \<open>None\<close>, a proportion (a float) or a list of chromosome names.
  \<open>truthy\<close> is Python's truth value of it.
\<close>

datatype holdout = NoHoldout | Proportion real | Chromosomes "string list"

definition truthy :: "holdout \<Rightarrow> bool" where
  "truthy h =
     (case h of NoHoldout \<Rightarrow> False | Proportion f \<Rightarrow> f \<noteq> 0 | Chromosomes cs \<Rightarrow> cs \<noteq> [])"

text \<open>
  The attributes of the sampler that the modelled methods use. The class
  \<open>OnlineSampler\<close>, which sets \<open>modes\<close>, \<open>mode\<close>, \<open>_holdout_type\<close> and the two holdouts,
  is not available, so these are given to the constructor as they are after the
  call of the superclass. A dictionary is a map; the value of a mode in
  \<open>_sample_from_mode\<close> is \<open>None\<close> until the data set is partitioned.

  The methods draw from numpy's global generator. \<open>random_stream\<close> is the sequence
  of the 53-bit integers behind the uniform variates that it will hand out next.
\<close>

record sampler =
  modes :: "string list"
  mode :: string
  holdout_type :: string
  validation_holdout :: holdout
  test_holdout :: holdout
  sample_from_mode :: "string \<rightharpoonup> sample_indices option"
  randcache :: "string \<rightharpoonup> randcache_entry"
  sample_from_intervals :: "(string \<times> int \<times> int) list"
  interval_lengths :: "int list"
  random_stream :: "nat \<Rightarrow> 53 word"

subsection \<open>\<open>np.random.choice\<close>\<close>

text \<open>
  \<open>np.random.choice(a, size=n, replace=True, p)\<close> as numpy implements it: the checks of
  the arguments, each of which raises \<open>ValueError\<close>, then one uniform variate in
  \<open>[0, 1)\<close> for each draw, looked up in the normalised cumulative distribution
  (\<open>searchsorted\<close> with \<open>side='right'\<close>). The tolerance of the sum check is the square
  root of the machine epsilon \<open>2^-52\<close>. A uniform variate is a 53-bit integer
  divided by \<open>2^53\<close>.
\<close>

definition uniform_value :: "53 word \<Rightarrow> real" where
  "uniform_value u = real (unat u) / 2 ^ 53"

definition finite_values :: "npfloat list \<Rightarrow> real list option" where
  "finite_values p =
     (if list_all (\<lambda>w. case w of Finite r \<Rightarrow> True | _ \<Rightarrow> False) p
      then Some (map (\<lambda>w. case w of Finite r \<Rightarrow> r | _ \<Rightarrow> 0) p)
      else None)"

fun cumsum :: "real \<Rightarrow> real list \<Rightarrow> real list" where
  "cumsum acc [] = []"
| "cumsum acc (x # xs) = (acc + x) # cumsum (acc + x) xs"

definition searchsorted_right :: "real list \<Rightarrow> real \<Rightarrow> nat" where
  "searchsorted_right cdf u = length (takeWhile (\<lambda>c. c \<le> u) cdf)"

fun take_at :: "nat list \<Rightarrow> nat list \<Rightarrow> error + nat list" where
  "take_at a [] = Inr []"
| "take_at a (i # rest) =
     (if i < length a
      then (case take_at a rest of Inl e \<Rightarrow> Inl e | Inr xs \<Rightarrow> Inr (a ! i # xs))
      else Inl IndexError)"

definition random_choice ::
  "nat list \<Rightarrow> nat \<Rightarrow> npfloat list \<Rightarrow> 53 word list \<Rightarrow> error + nat list" where
  "random_choice a n p uniforms =
     (if a = [] \<and> n \<noteq> 0 then Inl ValueError
      else if length p \<noteq> length a then Inl ValueError
      else (case finite_values p of
              None \<Rightarrow> Inl ValueError
            | Some ps \<Rightarrow>
                if list_ex (\<lambda>x. x < 0) ps then Inl ValueError
                else if 1 / 2 ^ 26 < \<bar>sum_list ps - 1\<bar> then Inl ValueError
                else (let totals = cumsum 0 ps;
                          cdf = map (\<lambda>c. c / last totals) totals
                      in take_at a (map (\<lambda>u. searchsorted_right cdf (uniform_value u))
                                      uniforms))))"

subsection \<open>\<open>_update_randcache\<close> and the read of the next index in \<open>sample\<close>\<close>

text \<open>
  The lookup of a mode in \<open>_sample_from_mode\<close>, followed by \<open>.indices\<close> or \<open>.weights\<close>:
  \<open>KeyError\<close> for a missing key, \<open>AttributeError\<close> for the value \<open>None\<close>.
\<close>

definition mode_samples :: "sampler \<Rightarrow> string \<Rightarrow> error + sample_indices" where
  "mode_samples st m =
     (case sample_from_mode st m of
        None \<Rightarrow> Inl KeyError
      | Some None \<Rightarrow> Inl AttributeError
      | Some (Some si) \<Rightarrow> Inr si)"

text \<open>
  \<open>_update_randcache(mode)\<close>: \<open>not mode\<close> holds for \<open>None\<close> and for the empty string.
  The right-hand side of the assignment is evaluated first, then the entry of
  \<open>_randcache\<close> is looked up. The draw uses as many variates as there are indices.
\<close>

definition update_randcache :: "sampler \<Rightarrow> string option \<Rightarrow> error + sampler" where
  "update_randcache st mode_arg =
     (let m = (case mode_arg of None \<Rightarrow> mode st | Some s \<Rightarrow> if s = [] then mode st else s)
      in case mode_samples st m of
           Inl e \<Rightarrow> Inl e
         | Inr si \<Rightarrow>
             (let n = length (indices si);
                  uniforms = map (random_stream st) [0..<n]
              in case random_choice (indices si) n (weights si) uniforms of
                   Inl e \<Rightarrow> Inl e
                 | Inr drawn \<Rightarrow>
                     (case randcache st m of
                        None \<Rightarrow> Inl KeyError
                      | Some entry \<Rightarrow>
                          Inr (st\<lparr>randcache := (randcache st)
                                     (m \<mapsto> entry\<lparr>cache_indices := Some drawn,
                                                 sample_next := 0\<rparr>),
                                   random_stream := (\<lambda>k. random_stream st (k + n))\<rparr>))))"

text \<open>
  Lines 242 to 249 of \<open>sample\<close>: the read of the next cached index of the current
  mode, with the refill when the cursor has reached the number of indices. The
  result is the index read and the new state.
\<close>

definition next_index :: "sampler \<Rightarrow> error + (nat \<times> sampler)" where
  "next_index st =
     (case randcache st (mode st) of
        None \<Rightarrow> Inl KeyError
      | Some entry \<Rightarrow>
          (case mode_samples st (mode st) of
             Inl e \<Rightarrow> Inl e
           | Inr si \<Rightarrow>
               (case (if sample_next entry = length (indices si)
                      then (case update_randcache st None of
                              Inl e \<Rightarrow> Inl e
                            | Inr st' \<Rightarrow> Inr (st', 0))
                      else Inr (st, sample_next entry)) of
                  Inl e \<Rightarrow> Inl e
                | Inr (st1, sample_index) \<Rightarrow>
                    (case randcache st1 (mode st1) of
                       None \<Rightarrow> Inl KeyError
                     | Some entry1 \<Rightarrow>
                         (case cache_indices entry1 of
                            None \<Rightarrow> Inl KeyError
                          | Some cache \<Rightarrow>
                              if sample_index < length cache
                              then Inr (cache ! sample_index,
                                        st1\<lparr>randcache := (randcache st1)
                                              (mode st1 \<mapsto>
                                                 entry1\<lparr>sample_next := sample_next entry1 + 1\<rparr>)\<rparr>)
                              else Inl IndexError)))))"

text \<open>\<open>n\<close> successive reads, with the indices read in order.\<close>

fun read_indices :: "nat \<Rightarrow> sampler \<Rightarrow> error + (nat list \<times> sampler)" where
  "read_indices 0 st = Inr ([], st)"
| "read_indices (Suc n) st =
     (case next_index st of
        Inl e \<Rightarrow> Inl e
      | Inr (i, st1) \<Rightarrow>
          (case read_indices n st1 of
             Inl e \<Rightarrow> Inl e
           | Inr (rest, st2) \<Rightarrow> Inr (i # rest, st2)))"

subsection \<open>Reading the intervals file\<close>

text \<open>
  The file is the list of its lines. For each line the code takes
  \<open>cols = line.strip().split('\t')\<close>, then \<open>cols[0]\<close>, \<open>int(cols[1])\<close> and
  \<open>int(cols[2])\<close>: a missing column raises \<open>IndexError\<close>, a column that is not an
  integer raises \<open>ValueError\<close>.
\<close>

definition int_column :: "string list \<Rightarrow> int \<Rightarrow> error + int" where
  "int_column cols i =
     (case py_index cols i of
        Inl e \<Rightarrow> Inl e
      | Inr c \<Rightarrow> (case py_int c of None \<Rightarrow> Inl ValueError | Some v \<Rightarrow> Inr v))"

definition interval_of_line :: "string \<Rightarrow> error + (string \<times> int \<times> int)" where
  "interval_of_line line =
     (let cols = columns line
      in case int_column cols 1 of
           Inl e \<Rightarrow> Inl e
         | Inr start \<Rightarrow>
             (case int_column cols 2 of
                Inl e \<Rightarrow> Inl e
              | Inr end \<Rightarrow> Inr (cols ! 0, start, end)))"

text \<open>The sampler after \<open>self.sample_from_intervals.append\<close> and the append of the length.\<close>

definition add_interval :: "sampler \<Rightarrow> string \<times> int \<times> int \<Rightarrow> sampler" where
  "add_interval st interval =
     (case interval of (chrom, start, end) \<Rightarrow>
        st\<lparr>sample_from_intervals := sample_from_intervals st @ [(chrom, start, end)],
           interval_lengths := interval_lengths st @ [end - start]\<rparr>)"

text \<open>The assignment \<open>self._sample_from_mode[m] = SampleIndices(xs, ws)\<close>.\<close>

definition store_samples :: "sampler \<Rightarrow> string \<Rightarrow> nat list \<times> npfloat list \<Rightarrow> sampler" where
  "store_samples st m r =
     st\<lparr>sample_from_mode := (sample_from_mode st)
          (m \<mapsto> Some \<lparr>indices = fst r, weights = snd r\<rparr>)\<rparr>"

subsection \<open>\<open>_partition_dataset_proportion\<close>\<close>

text \<open>The loop of lines 116 to 122.\<close>

fun read_intervals :: "sampler \<Rightarrow> string list \<Rightarrow> error + sampler" where
  "read_intervals st [] = Inr st"
| "read_intervals st (line # rest) =
     (case interval_of_line line of
        Inl e \<Rightarrow> Inl e
      | Inr interval \<Rightarrow> read_intervals (add_interval st interval) rest)"

text \<open>
  \<open>int(n_intervals * holdout)\<close>: the product with a float, truncated towards zero.
  With \<open>None\<close> the product raises \<open>TypeError\<close>; with a list the product is a list and
  \<open>int\<close> raises \<open>TypeError\<close>.
\<close>

definition scaled_count :: "nat \<Rightarrow> holdout \<Rightarrow> error + int" where
  "scaled_count n h =
     (case h of
        Proportion f \<Rightarrow>
          Inr (if 0 \<le> real n * f then \<lfloor>real n * f\<rfloor> else \<lceil>real n * f\<rceil>)
      | _ \<Rightarrow> Inl TypeError)"

text \<open>
  The three slices of the shuffled indices that lines 130 to 155 hand to
  \<open>_get_indices_and_probabilities\<close>, for the counts of the validation and the test
  set.
\<close>

definition validate_slice :: "nat list \<Rightarrow> int \<Rightarrow> nat list" where
  "validate_slice select_indices n_indices_validate =
     slice_to select_indices n_indices_validate"

definition test_slice :: "nat list \<Rightarrow> int \<Rightarrow> int \<Rightarrow> nat list" where
  "test_slice select_indices n_indices_validate n_indices_test =
     py_slice select_indices n_indices_validate (n_indices_test + n_indices_validate)"

definition train_slice :: "nat list \<Rightarrow> int \<Rightarrow> nat list" where
  "train_slice select_indices first_index = slice_from select_indices first_index"

text \<open>
  \<open>np.random.shuffle\<close> permutes \<open>select_indices\<close> in place; its effect under the
  state of the generator is the function \<open>shuffle\<close>.
\<close>

definition partition_dataset_proportion ::
  "(nat list \<Rightarrow> nat list) \<Rightarrow> sampler \<Rightarrow> string list \<Rightarrow> error + sampler" where
  "partition_dataset_proportion shuffle st intervals_file =
     (case read_intervals st intervals_file of
        Inl e \<Rightarrow> Inl e
      | Inr st1 \<Rightarrow>
          (let n_intervals = length (sample_from_intervals st1);
               select_indices = shuffle [0..<n_intervals]
           in case scaled_count n_intervals (validation_holdout st1) of
                Inl e \<Rightarrow> Inl e
              | Inr n_indices_validate \<Rightarrow>
          (case get_indices_and_probabilities (interval_lengths st1)
                  (validate_slice select_indices n_indices_validate) of
             Inl e \<Rightarrow> Inl e
           | Inr val \<Rightarrow>
          (let st2 = store_samples st1 ''validate'' val
           in if truthy (test_holdout st2)
              then (case scaled_count n_intervals (test_holdout st2) of
                      Inl e \<Rightarrow> Inl e
                    | Inr n_indices_test \<Rightarrow>
                   (case get_indices_and_probabilities (interval_lengths st2)
                           (test_slice select_indices n_indices_validate n_indices_test) of
                      Inl e \<Rightarrow> Inl e
                    | Inr test \<Rightarrow>
                   (let st3 = store_samples st2 ''test'' test
                    in case get_indices_and_probabilities (interval_lengths st3)
                              (train_slice select_indices
                                 (n_indices_test + n_indices_validate)) of
                         Inl e \<Rightarrow> Inl e
                       | Inr tr \<Rightarrow> Inr (store_samples st3 ''train'' tr))))
              else (case get_indices_and_probabilities (interval_lengths st2)
                           (train_slice select_indices n_indices_validate) of
                      Inl e \<Rightarrow> Inl e
                    | Inr tr \<Rightarrow> Inr (store_samples st2 ''train'' tr))))))"

subsection \<open>\<open>_partition_dataset_chromosome\<close>\<close>

text \<open>
  \<open>chrom in holdout\<close>: membership in a list of names; \<open>TypeError\<close> for \<open>None\<close> and for
  a float.
\<close>

definition chrom_in :: "string \<Rightarrow> holdout \<Rightarrow> error + bool" where
  "chrom_in chrom h =
     (case h of Chromosomes cs \<Rightarrow> Inr (chrom \<in> set cs) | _ \<Rightarrow> Inl TypeError)"

text \<open>Lines 168 to 176: the mode of a chromosome.\<close>

definition mode_of_chrom :: "sampler \<Rightarrow> string \<Rightarrow> error + string" where
  "mode_of_chrom st chrom =
     (case chrom_in chrom (validation_holdout st) of
        Inl e \<Rightarrow> Inl e
      | Inr in_validate \<Rightarrow>
          if in_validate then Inr ''validate''
          else if \<not> truthy (test_holdout st) then Inr ''train''
          else (case chrom_in chrom (test_holdout st) of
                  Inl e \<Rightarrow> Inl e
                | Inr in_test \<Rightarrow> Inr (if in_test then ''test'' else ''train'')))"

text \<open>\<open>self._sample_from_mode[m].indices.append(index)\<close>.\<close>

definition append_index :: "sampler \<Rightarrow> string \<Rightarrow> nat \<Rightarrow> error + sampler" where
  "append_index st m index =
     (case mode_samples st m of
        Inl e \<Rightarrow> Inl e
      | Inr si \<Rightarrow>
          Inr (st\<lparr>sample_from_mode := (sample_from_mode st)
                    (m \<mapsto> Some (si\<lparr>indices := indices si @ [index]\<rparr>))\<rparr>))"

text \<open>The loop of lines 163 to 178, from the line with the given index on.\<close>

fun assign_chromosomes :: "sampler \<Rightarrow> nat \<Rightarrow> string list \<Rightarrow> error + sampler" where
  "assign_chromosomes st index [] = Inr st"
| "assign_chromosomes st index (line # rest) =
     (case interval_of_line line of
        Inl e \<Rightarrow> Inl e
      | Inr interval \<Rightarrow>
          (case mode_of_chrom st (fst interval) of
             Inl e \<Rightarrow> Inl e
           | Inr m \<Rightarrow>
               (case append_index st m index of
                  Inl e \<Rightarrow> Inl e
                | Inr st1 \<Rightarrow> assign_chromosomes (add_interval st1 interval) (index + 1) rest)))"

text \<open>The loop of lines 180 to 186 over the modes.\<close>

fun weigh_modes :: "sampler \<Rightarrow> string list \<Rightarrow> error + sampler" where
  "weigh_modes st [] = Inr st"
| "weigh_modes st (m # ms) =
     (case mode_samples st m of
        Inl e \<Rightarrow> Inl e
      | Inr si \<Rightarrow>
          (case get_indices_and_probabilities (interval_lengths st) (indices si) of
             Inl e \<Rightarrow> Inl e
           | Inr r \<Rightarrow> weigh_modes (store_samples st m r) ms))"

definition partition_dataset_chromosome :: "sampler \<Rightarrow> string list \<Rightarrow> error + sampler" where
  "partition_dataset_chromosome st intervals_file =
     (let st0 = foldl (\<lambda>s m. store_samples s m ([], [])) st (modes st)
      in case assign_chromosomes st0 0 intervals_file of
           Inl e \<Rightarrow> Inl e
         | Inr st1 \<Rightarrow> weigh_modes st1 (modes st1))"

subsection \<open>The constructor\<close>

text \<open>
  Lines 95 to 102, after the call of the superclass, whose results are the first
  five arguments; the last is the state of numpy's generator.
\<close>

definition initial_sampler ::
  "string list \<Rightarrow> string \<Rightarrow> string \<Rightarrow> holdout \<Rightarrow> holdout \<Rightarrow> (nat \<Rightarrow> 53 word) \<Rightarrow> sampler" where
  "initial_sampler ms current ht vh th stream =
     \<lparr>modes = ms, mode = current, holdout_type = ht,
      validation_holdout = vh, test_holdout = th,
      sample_from_mode = (\<lambda>m. if m \<in> set ms then Some None else None),
      randcache = (\<lambda>m. if m \<in> set ms
                        then Some \<lparr>cache_indices = None, sample_next = 0\<rparr> else None),
      sample_from_intervals = [], interval_lengths = [],
      random_stream = stream\<rparr>"

text \<open>Lines 104 to 107.\<close>

definition partition_dataset ::
  "(nat list \<Rightarrow> nat list) \<Rightarrow> sampler \<Rightarrow> string list \<Rightarrow> error + sampler" where
  "partition_dataset shuffle st intervals_file =
     (if holdout_type st = ''chromosome'' then partition_dataset_chromosome st intervals_file
      else partition_dataset_proportion shuffle st intervals_file)"

text \<open>Lines 109 and 110: the refill of the cache of every mode.\<close>

fun refill_modes :: "sampler \<Rightarrow> string list \<Rightarrow> error + sampler" where
  "refill_modes st [] = Inr st"
| "refill_modes st (m # ms) =
     (case update_randcache st (Some m) of
        Inl e \<Rightarrow> Inl e
      | Inr st1 \<Rightarrow> refill_modes st1 ms)"

definition init ::
  "string list \<Rightarrow> string \<Rightarrow> string \<Rightarrow> holdout \<Rightarrow> holdout \<Rightarrow> (nat \<Rightarrow> 53 word)
     \<Rightarrow> (nat list \<Rightarrow> nat list) \<Rightarrow> string list \<Rightarrow> error + sampler" where
  "init ms current ht vh th stream shuffle intervals_file =
     (case partition_dataset shuffle (initial_sampler ms current ht vh th stream)
             intervals_file of
        Inl e \<Rightarrow> Inl e
      | Inr st \<Rightarrow> refill_modes st (modes st))"

subsection \<open>What is stored for a mode\<close>

text \<open>
  The index list stored for a mode, empty when nothing is stored; and the state of
  a mode whose cache has just been refilled: a partition without which the draw
  raises, a cache of as many indices as the partition, and the cursor at 0.
\<close>

definition mode_indices :: "sampler \<Rightarrow> string \<Rightarrow> nat list" where
  "mode_indices st m = (case mode_samples st m of Inl e \<Rightarrow> [] | Inr si \<Rightarrow> indices si)"


definition refilled :: "sampler \<Rightarrow> string \<Rightarrow> bool" where
  "refilled st m \<longleftrightarrow>
     (\<exists>si cache. mode_samples st m = Inr si
        \<and> randcache st m = Some \<lparr>cache_indices = Some cache, sample_next = 0\<rparr>
        \<and> length cache = length (indices si) \<and> indices si \<noteq> [])"

subsection \<open>An example of a sampler\<close>

text \<open>
  Two intervals files of three lines, with the interval lengths 10, 0, 90 and
  10, 20, 90; a sampler before the partition, with the proportions 0.34 and 0.34;
  the samplers that the proportional split makes of it when the shuffle leaves the
  order as it is; and a sampler whose training partition holds two indices.
\<close>

definition interval_line :: "string \<Rightarrow> string \<Rightarrow> string \<Rightarrow> string" where
  "interval_line chrom start end = tab_joined [chrom, start, end] @ [char_of (10::nat)]"

definition intervals_example :: "string list" where
  "intervals_example =
     [interval_line ''1'' ''0'' ''10'', interval_line ''1'' ''5'' ''5'',
      interval_line ''2'' ''0'' ''90'']"

definition intervals_example_full :: "string list" where
  "intervals_example_full =
     [interval_line ''1'' ''0'' ''10'', interval_line ''1'' ''5'' ''25'',
      interval_line ''2'' ''0'' ''90'']"

definition sampler_example :: sampler where
  "sampler_example =
     initial_sampler [''train'', ''validate'', ''test''] ''train'' ''proportion''
       (Proportion (34 / 100)) (Proportion (34 / 100)) (\<lambda>k. 0)"

definition partitioned_example :: sampler where
  "partitioned_example =
     store_samples (store_samples (store_samples
       (sampler_example\<lparr>sample_from_intervals :=
                            [(''1'', 0, 10), (''1'', 5, 5), (''2'', 0, 90)],
                          interval_lengths := [10, 0, 90]\<rparr>)
       ''validate'' ([0], [Finite 1])) ''test'' ([], [])) ''train'' ([2], [Finite 1])"

definition partitioned_example_full :: sampler where
  "partitioned_example_full =
     store_samples (store_samples (store_samples
       (sampler_example\<lparr>sample_from_intervals :=
                            [(''1'', 0, 10), (''1'', 5, 25), (''2'', 0, 90)],
                          interval_lengths := [10, 20, 90]\<rparr>)
       ''validate'' ([0], [Finite 1])) ''test'' ([1], [Finite 1])) ''train'' ([2], [Finite 1])"

definition cached_example :: sampler where
  "cached_example =
     store_samples sampler_example ''train'' ([0, 2], [Finite (1 / 10), Finite (9 / 10)])"

section \<open>Properties of \<open>_get_ref_idxs\<close>\<close>

lemma ceiling_half: "\<lceil>real_of_int n / 2\<rceil> = (n + 1) div 2"
proof -
  have "\<lceil>real_of_int n / real_of_int 2\<rceil> = - (- n div 2)"
    by (rule ceiling_divide_eq_div)
  also have "\<dots> = (n + 1) div 2"
    by presburger
  finally show ?thesis
    by simp
qed

text \<open>
  C3. For every integer \<open>mid\<close> and every \<open>ref_len \<ge> 1\<close>, \<open>_get_ref_idxs\<close> returns
  \<open>(start, start + ref_len)\<close>, where \<open>start = mid - ceil(ref_len / 2) + 1\<close> on the
  reverse strand with \<open>ref_len > 1\<close>, \<open>start = mid - 1\<close> on the forward strand with
  \<open>ref_len = 1\<close>, and \<open>start = mid - ref_len // 2 - 1\<close> on the forward strand with
  \<open>ref_len > 1\<close>. The ceiling is the ceiling of the real quotient.
\<close>

theorem get_ref_idxs_offsets:
  assumes "1 \<le> ref_len"
  shows "(strand = ''-'' \<and> 1 < ref_len \<longrightarrow>
            get_ref_idxs mid strand ref_len =
              (mid - \<lceil>real_of_int ref_len / 2\<rceil> + 1,
               mid - \<lceil>real_of_int ref_len / 2\<rceil> + 1 + ref_len))
       \<and> (strand = ''+'' \<and> ref_len = 1 \<longrightarrow>
            get_ref_idxs mid strand ref_len = (mid - 1, mid - 1 + ref_len))
       \<and> (strand = ''+'' \<and> 1 < ref_len \<longrightarrow>
            get_ref_idxs mid strand ref_len =
              (mid - ref_len div 2 - 1, mid - ref_len div 2 - 1 + ref_len))"
  unfolding get_ref_idxs_def Let_def ceiling_half by simp

theorem get_ref_idxs_offsets_witness:
  "get_ref_idxs 10 ''-'' 3 = (9, 12) \<and> get_ref_idxs 10 ''+'' 1 = (9, 10)
   \<and> get_ref_idxs 10 ''+'' 4 = (7, 11)"
  using get_ref_idxs_offsets [of 3 "''-''" 10] get_ref_idxs_offsets [of 1 "''+''" 10]
    get_ref_idxs_offsets [of 4 "''+''" 10]
  by simp

text \<open>
  C10. For a single-base reference allele the reverse-strand call falls through to
  the default \<open>start = mid\<close> and returns \<open>(mid, mid + 1)\<close>, while the forward-strand
  call returns \<open>(mid - 1, mid)\<close>: the reverse-strand sub-window lies one position to
  the right of the forward-strand one.
\<close>

theorem get_ref_idxs_single_base:
  "get_ref_idxs mid ''-'' 1 = (mid, mid + 1) \<and> get_ref_idxs mid ''+'' 1 = (mid - 1, mid)"
  by (simp add: get_ref_idxs_def)

section \<open>Properties of \<open>_process_alt\<close> and \<open>_handle_standard_ref\<close>\<close>

lemma slice_bound_in_range: "0 \<le> i \<Longrightarrow> i \<le> int n \<Longrightarrow> slice_bound n i = nat i"
  by (simp add: slice_bound_def)

lemma get_ref_idxs_end: "get_ref_idxs mid strand ref_len = (s, e) \<Longrightarrow> e = s + ref_len"
  by (auto simp: get_ref_idxs_def Let_def split: if_splits)

text \<open>
  C4. In \<open>_process_alt\<close>, with the offsets of \<open>_get_ref_idxs\<close> inside the window
  (\<open>0 \<le> start_pos\<close> and \<open>end_pos \<le> len(wt_sequence)\<close>), and \<open>alt\<close> read as the
  code reads it after line 128 (a deletion marker is the empty allele): when \<open>alt\<close>
  is longer than the window, the reconstructed text is \<open>alt\<close> truncated to the window
  length, and has that length; when \<open>ref\<close> and \<open>alt\<close> have the same length, the text has the length of
  the window; when \<open>alt\<close> is longer than \<open>ref\<close>, the text, after truncation, has
  the length of the window; and when \<open>alt = ref\<close> and the window holds \<open>ref\<close> at the
  computed offset, the result is the encoding of the unmodified window.
\<close>

theorem process_alt_cases:
  fixes rs :: "'e reference_sequence"
  assumes idx: "get_ref_idxs start_radius strand (int (length ref)) = (s, e)"
    and lo: "0 \<le> s" and hi: "e \<le> int (length wt)"
  shows "(length wt < length (deletion_marker_to_empty alt) \<longrightarrow>
            process_alt_sequence chrom pos ref alt start end strand wt start_radius rs
              = truncate_sequence (deletion_marker_to_empty alt) (length wt)
          \<and> length (process_alt_sequence chrom pos ref alt start end strand wt
                       start_radius rs) = length wt)
       \<and> (length ref = length (deletion_marker_to_empty alt) \<longrightarrow>
            length (process_alt_sequence chrom pos ref alt start end strand wt start_radius rs)
              = length wt)
       \<and> (length ref < length (deletion_marker_to_empty alt) \<longrightarrow>
            length (process_alt_sequence chrom pos ref alt start end strand wt start_radius rs)
              = length wt)
       \<and> (deletion_marker_to_empty alt = ref \<and> py_slice wt s e = ref \<longrightarrow>
            process_alt chrom pos ref alt start end strand wt start_radius rs
              = sequence_to_encoding rs wt)"
proof -
  let ?a = "deletion_marker_to_empty alt"
  let ?seq = "process_alt_sequence chrom pos ref alt start end strand wt start_radius rs"
  have e: "e = s + int (length ref)"
    using idx by (rule get_ref_idxs_end)
  have sb: "slice_bound (length wt) s = nat s" "slice_bound (length wt) e = nat e"
    using lo hi e by (simp_all add: slice_bound_in_range)
  have ref_le: "length ref \<le> length wt"
    using lo hi e by linarith
  have ne: "nat e = nat s + length ref" "nat e \<le> length wt" "nat s \<le> length wt"
    using lo hi e by simp_all
  have c1: "?seq = truncate_sequence ?a (length wt)" "length ?seq = length wt"
    if "length wt < length ?a"
    using that by (simp_all add: process_alt_sequence_def Let_def truncate_sequence_def)
  have c2: "length ?seq = length wt" if "length ref = length ?a"
  proof -
    have "?seq = slice_to wt s @ ?a @ slice_from wt e"
      using that ref_le idx by (simp add: process_alt_sequence_def Let_def)
    then show ?thesis
      using that ne by (simp add: slice_to_def slice_from_def sb)
  qed
  have c3: "length ?seq = length wt" if "length ref < length ?a"
  proof (cases "length wt < length ?a")
    case True
    then show ?thesis by (rule c1(2))
  next
    case False
    then have "?seq = truncate_sequence (slice_to wt s @ ?a @ slice_from wt e) (length wt)"
      using that idx by (simp add: process_alt_sequence_def Let_def e)
    then show ?thesis
      using that ne by (simp add: truncate_sequence_def slice_to_def slice_from_def sb)
  qed
  have c4: "process_alt chrom pos ref alt start end strand wt start_radius rs
              = sequence_to_encoding rs wt"
    if "?a = ref" "py_slice wt s e = ref"
  proof -
    have "?seq = slice_to wt s @ ref @ slice_from wt e"
      using that(1) ref_le idx by (simp add: process_alt_sequence_def Let_def)
    also have "\<dots> = take (nat s) wt @ take (nat e - nat s) (drop (nat s) wt) @ drop (nat e) wt"
      using that(2) by (simp add: slice_to_def slice_from_def py_slice_def Let_def sb)
    also have "\<dots> = wt"
    proof -
      have "nat e = nat s + (nat e - nat s)"
        using ne by simp
      then have "drop (nat e) wt = drop (nat e - nat s) (drop (nat s) wt)"
        by (metis add.commute drop_drop)
      then show ?thesis
        by (simp only: append_take_drop_id)
    qed
    finally show ?thesis
      by (simp add: process_alt_def)
  qed
  show ?thesis
    using c1 c2 c3 c4 by blast
qed


theorem process_alt_cases_witness:
  "get_ref_idxs 3 ''+'' (int (length ''G'')) = (2, 3)
   \<and> process_alt_sequence ''1'' 100 ''G'' ''ACGTACGT'' 98 103 ''+'' ''ACGTA'' 3 rs0 = ''ACGTA''
   \<and> length (process_alt_sequence ''1'' 100 ''G'' ''T'' 98 103 ''+'' ''ACGTA'' 3 rs0) = 5
   \<and> length (process_alt_sequence ''1'' 100 ''G'' ''TT'' 98 103 ''+'' ''ACGTA'' 3 rs0) = 5
   \<and> process_alt ''1'' 100 ''G'' ''G'' 98 103 ''+'' ''ACGTA'' 3 rs0 = ''ACGTA''"
proof -
  have h: "get_ref_idxs 3 ''+'' (int (length ''G'')) = (2, 3)"
    by (simp add: get_ref_idxs_def)
  have w: "(0::int) \<le> 2" "(3::int) \<le> int (length ''ACGTA'')"
    by simp_all
  have s: "py_slice ''ACGTA'' 2 3 = ''G''"
    by (simp add: py_slice_def slice_bound_def)
  note t = process_alt_cases [OF h w, where rs = rs0 and chrom = "''1''" and pos = 100
      and start = 98 and ?end = 103]
  show ?thesis
    using h s t [of "''ACGTACGT''"] t [of "''T''"] t [of "''TT''"] t [of "''G''"]
    by (simp add: deletion_marker_to_empty_def rs0_def truncate_sequence_def)
qed

lemma assign_rows_in_range:
  assumes "0 \<le> s" "s + int (length v) \<le> int (length xs)"
  shows "assign_rows xs s (s + int (length v)) v
           = Inr (take (nat s) xs @ v @ drop (nat s + length v) xs)"
proof -
  have "slice_bound (length xs) s = nat s"
    and "slice_bound (length xs) (s + int (length v)) = nat s + length v"
    using assms by (simp_all add: slice_bound_in_range nat_add_distrib)
  then show ?thesis
    by (simp add: assign_rows_def Let_def)
qed

text \<open>
  C5. In \<open>_handle_standard_ref\<close>, with the sub-window of \<open>_get_ref_idxs\<close> inside
  the window: when the sub-window equals the declared reference encoding, the result
  is \<open>(True, window, text)\<close> with the window unchanged; when it differs, the result
  is \<open>(False, window', text)\<close>, where \<open>window'\<close> has the length of the window, holds
  the declared reference encoding in the sub-window and agrees with the window
  before and after it. In both cases \<open>text\<close> is the text of the sub-window as it
  was observed in the input window.
\<close>

theorem handle_standard_ref_cases:
  fixes rs :: "('r list) reference_sequence"
  assumes idx: "get_ref_idxs mid strand (int (length ref_encoding)) = (s, e)"
    and lo: "0 \<le> s" and hi: "e \<le> int (length seq_encoding)"
  shows "(py_slice seq_encoding s e = ref_encoding \<longrightarrow>
            handle_standard_ref ref_encoding seq_encoding mid rs strand
              = Inr (True, seq_encoding, encoding_to_sequence rs (py_slice seq_encoding s e)))
       \<and> (py_slice seq_encoding s e \<noteq> ref_encoding \<longrightarrow>
            (\<exists>seq'. handle_standard_ref ref_encoding seq_encoding mid rs strand
                      = Inr (False, seq', encoding_to_sequence rs (py_slice seq_encoding s e))
                  \<and> length seq' = length seq_encoding
                  \<and> py_slice seq' s e = ref_encoding
                  \<and> slice_to seq' s = slice_to seq_encoding s
                  \<and> slice_from seq' e = slice_from seq_encoding e))"
proof -
  let ?seq' = "take (nat s) seq_encoding @ ref_encoding
                 @ drop (nat s + length ref_encoding) seq_encoding"
  have e: "e = s + int (length ref_encoding)"
    using idx by (rule get_ref_idxs_end)
  have ne: "nat e = nat s + length ref_encoding" "nat e \<le> length seq_encoding"
    "nat s \<le> length seq_encoding"
    using lo hi e by simp_all
  have sb: "slice_bound (length seq_encoding) s = nat s"
    "slice_bound (length seq_encoding) e = nat e"
    using lo hi e by (simp_all add: slice_bound_in_range)
  have len: "length ?seq' = length seq_encoding"
    using ne by simp
  have asg: "assign_rows seq_encoding s e ref_encoding = Inr ?seq'"
    unfolding e using lo hi e by (intro assign_rows_in_range) simp_all
  have run: "handle_standard_ref ref_encoding seq_encoding mid rs strand =
      (if py_slice seq_encoding s e = ref_encoding
       then Inr (True, seq_encoding, encoding_to_sequence rs (py_slice seq_encoding s e))
       else Inr (False, ?seq', encoding_to_sequence rs (py_slice seq_encoding s e)))"
    using idx asg by (simp add: handle_standard_ref_def Let_def e)
  have sb': "slice_bound (length ?seq') s = nat s" "slice_bound (length ?seq') e = nat e"
    unfolding len by (rule sb)+
  have p1: "py_slice ?seq' s e = ref_encoding"
    unfolding py_slice_def Let_def sb' using ne by simp
  have p2: "slice_to ?seq' s = slice_to seq_encoding s"
    unfolding slice_to_def sb sb' using ne by simp
  have p3: "slice_from ?seq' e = slice_from seq_encoding e"
    unfolding slice_from_def sb sb' using ne by simp
  show ?thesis
    using run len p1 p2 p3 by auto
qed

theorem handle_standard_ref_cases_witness:
  "get_ref_idxs 3 ''+'' (int (length [''G''])) = (2, 3)
   \<and> handle_standard_ref [''G''] [''A'', ''C'', ''G'', ''T'', ''A''] 3 rs1 ''+''
       = Inr (True, [''A'', ''C'', ''G'', ''T'', ''A''], ''G'')
   \<and> (\<exists>seq'. handle_standard_ref [''G''] [''A'', ''C'', ''T'', ''T'', ''A''] 3 rs1 ''+''
               = Inr (False, seq', ''T'')
             \<and> py_slice seq' 2 3 = [''G''])"
proof -
  have h: "get_ref_idxs 3 ''+'' (int (length [''G''])) = (2, 3)"
    by (simp add: get_ref_idxs_def)
  have s: "py_slice [''A'', ''C'', ''G'', ''T'', ''A''] 2 3 = [''G'']"
    "py_slice [''A'', ''C'', ''T'', ''T'', ''A''] 2 3 = [''T'']"
    by (simp_all add: py_slice_def slice_bound_def)
  show ?thesis
    using h s handle_standard_ref_cases [OF h, of "[''A'', ''C'', ''G'', ''T'', ''A'']" rs1]
      handle_standard_ref_cases [OF h, of "[''A'', ''C'', ''T'', ''T'', ''A'']" rs1]
    by (auto simp add: rs1_def)
qed

section \<open>Properties of \<open>read_vcf_file\<close>\<close>










section \<open>Properties of \<open>_get_indices_and_probabilities\<close>\<close>

lemma keep_indices_filter:
  "keep_indices idxs (map h idxs) = filter (\<lambda>i. above_threshold (h i)) idxs"
proof -
  have "zip idxs (map h idxs) = map (\<lambda>i. (i, h i)) idxs"
    by (induction idxs) simp_all
  then show ?thesis
    by (simp add: keep_indices_def filter_map comp_def)
qed

lemma length_weights_lookup:
  "length_weights (map ((!) lens) idxs)
     = map (\<lambda>i. true_divide (lens ! i) (sum_list (map ((!) lens) idxs))) idxs"
  by (simp add: length_weights_def comp_def)


lemma selector_unfold:
  "get_indices_and_probabilities lens idxs =
     (if \<not> list_all (\<lambda>i. i < length lens) idxs then Inl IndexError
      else if length (kept lens idxs) = length idxs
        then Inr (idxs, length_weights (map ((!) lens) idxs))
      else get_indices_and_probabilities lens (kept lens idxs))"
  by (subst get_indices_and_probabilities.simps)
    (simp add: select_interval_lens_def Let_def length_weights_lookup keep_indices_filter
      kept_def)










lemma selector_empty:
  "get_indices_and_probabilities lens [] = Inr ([], [])"
  by (subst selector_unfold) (simp add: kept_def length_weights_def)




text \<open>
  C8. For an empty candidate list the selector returns an empty index list and an
  empty weight list: the selection and the weights are empty (no element is divided
  by the zero total), as many indices are kept as were given, so the returning
  branch is taken and there is no recursive call, and the result is not an error.
\<close>

theorem selector_empty_subset:
  "select_interval_lens lens [] = Inr []
   \<and> length_weights [] = []
   \<and> length (keep_indices [] (length_weights [])) = length ([] :: nat list)
   \<and> get_indices_and_probabilities lens [] = Inr ([], [])"
  by (simp add: select_interval_lens_def length_weights_def keep_indices_def selector_empty)

section \<open>Properties of the random-draw cache\<close>

lemma length_cumsum: "length (cumsum acc xs) = length xs"
  by (induction xs arbitrary: acc) simp_all

lemma last_cumsum: "xs \<noteq> [] \<Longrightarrow> last (cumsum acc xs) = acc + sum_list xs"
proof (induction xs arbitrary: acc)
  case Nil
  then show ?case by simp
next
  case (Cons x xs)
  show ?case
  proof (cases xs)
    case Nil
    then show ?thesis by simp
  next
    case (Cons y ys)
    then have "cumsum (acc + x) xs \<noteq> []"
      by simp
    then show ?thesis
      using Cons.IH [of "acc + x"] Cons by (simp add: add.assoc)
  qed
qed

lemma searchsorted_right_less:
  assumes "cdf \<noteq> []" and "u < last cdf"
  shows "searchsorted_right cdf u < length cdf"
proof -
  have "takeWhile (\<lambda>c. c \<le> u) cdf \<noteq> cdf"
  proof
    assume "takeWhile (\<lambda>c. c \<le> u) cdf = cdf"
    then have "\<forall>c \<in> set cdf. c \<le> u"
      by (simp add: takeWhile_eq_all_conv)
    then have "last cdf \<le> u"
      using assms(1) by simp
    with assms(2) show False
      by simp
  qed
  moreover have "takeWhile (\<lambda>c. c \<le> u) cdf = take (length (takeWhile (\<lambda>c. c \<le> u) cdf)) cdf"
    by (rule takeWhile_eq_take)
  moreover have "length (takeWhile (\<lambda>c. c \<le> u) cdf) \<le> length cdf"
    by (rule length_takeWhile_le)
  ultimately show ?thesis
    unfolding searchsorted_right_def
    by (metis le_neq_implies_less take_all order_refl)
qed

lemma uniform_value_less_one: "uniform_value u < 1"
proof -
  have "unat u < 2 ^ 53"
    using unsigned_less [of u, where ?'a = nat] by simp
  then have "real (unat u) < 2 ^ 53"
    by (metis of_nat_less_iff of_nat_numeral of_nat_power)
  then show ?thesis
    by (simp add: uniform_value_def)
qed

lemma take_at_in_range:
  "\<forall>i \<in> set js. i < length a \<Longrightarrow> take_at a js = Inr (map ((!) a) js)"
  by (induction js) simp_all

lemma finite_values_map: "finite_values (map Finite ps) = Some ps"
  by (simp add: finite_values_def list_all_iff comp_def)

lemma random_choice_valid:
  assumes "a \<noteq> []" and "length ps = length a" and "\<forall>p \<in> set ps. 0 \<le> p"
    and "\<bar>sum_list ps - 1\<bar> \<le> 1 / 2 ^ 26"
  shows "\<exists>xs. random_choice a n (map Finite ps) us = Inr xs
           \<and> length xs = length us \<and> set xs \<subseteq> set a"
proof -
  let ?totals = "cumsum 0 ps"
  let ?cdf = "map (\<lambda>c. c / last ?totals) ?totals"
  let ?js = "map (\<lambda>u. searchsorted_right ?cdf (uniform_value u)) us"
  have ps: "ps \<noteq> []"
    using assms(1,2) by auto
  then have tot: "?totals \<noteq> []"
    using length_cumsum [of 0 ps] by auto
  have "(1::real) / 2 ^ 26 < 1"
    by simp
  then have pos: "0 < sum_list ps"
    using assms(4) by linarith
  have "last ?cdf = last ?totals / last ?totals"
    using tot by (simp add: last_map)
  also have "\<dots> = 1"
    using pos ps by (simp add: last_cumsum)
  finally have last: "last ?cdf = 1" .
  have "searchsorted_right ?cdf (uniform_value u) < length a" for u
  proof -
    have "searchsorted_right ?cdf (uniform_value u) < length ?cdf"
      using tot uniform_value_less_one [of u] unfolding last [symmetric]
      by (intro searchsorted_right_less) simp_all
    then show ?thesis
      by (simp add: length_cumsum assms(2))
  qed
  then have js: "\<forall>i \<in> set ?js. i < length a"
    by auto
  have "\<not> list_ex (\<lambda>x. x < 0) ps"
    using assms(3) by (auto simp: list_ex_iff not_less)
  then have "random_choice a n (map Finite ps) us = take_at a ?js"
    using assms(1,2,4) by (simp add: random_choice_def finite_values_map Let_def not_less)
  also have "\<dots> = Inr (map ((!) a) ?js)"
    using js by (rule take_at_in_range)
  finally have "random_choice a n (map Finite ps) us = Inr (map ((!) a) ?js)" .
  moreover have "set (map ((!) a) ?js) \<subseteq> set a"
    using js by auto
  ultimately show ?thesis
    by simp
qed


lemma update_randcache_valid:
  assumes target: "(case mode_arg of None \<Rightarrow> mode st
                    | Some s \<Rightarrow> if s = [] then mode st else s) = m"
    and ms: "mode_samples st m = Inr si"
    and rc: "randcache st m = Some entry"
    and ne: "indices si \<noteq> []"
    and w: "weights si = map Finite ps" "length ps = length (indices si)"
      "\<forall>p \<in> set ps. 0 \<le> p" "\<bar>sum_list ps - 1\<bar> \<le> 1 / 2 ^ 26"
  shows "\<exists>cache. update_randcache st mode_arg =
            Inr (st\<lparr>randcache := (randcache st)
                      (m \<mapsto> \<lparr>cache_indices = Some cache, sample_next = 0\<rparr>),
                    random_stream := (\<lambda>k. random_stream st (k + length (indices si)))\<rparr>)
          \<and> length cache = length (indices si) \<and> set cache \<subseteq> set (indices si)"
proof -
  let ?n = "length (indices si)"
  have e: "entry\<lparr>cache_indices := c, sample_next := 0\<rparr>
             = \<lparr>cache_indices = c, sample_next = 0\<rparr>" for c
    by (cases entry) simp
  obtain cache where c: "random_choice (indices si) ?n (map Finite ps)
                           (map (random_stream st) [0..<?n]) = Inr cache"
    and l: "length cache = length (map (random_stream st) [0..<?n])"
    and s: "set cache \<subseteq> set (indices si)"
    using random_choice_valid [OF ne w(2,3,4)] by blast
  have "update_randcache st mode_arg =
            Inr (st\<lparr>randcache := (randcache st)
                      (m \<mapsto> \<lparr>cache_indices = Some cache, sample_next = 0\<rparr>),
                    random_stream := (\<lambda>k. random_stream st (k + ?n))\<rparr>)"
    unfolding update_randcache_def target using ms rc c by (simp add: Let_def w(1) e)
  then show ?thesis
    using l s by auto
qed

lemma next_index_cached:
  assumes "mode_samples st (mode st) = Inr si"
    and "randcache st (mode st) = Some \<lparr>cache_indices = Some cache, sample_next = k\<rparr>"
    and "length cache = length (indices si)" and "k < length cache"
  shows "next_index st =
           Inr (cache ! k,
                st\<lparr>randcache := (randcache st)
                     (mode st \<mapsto> \<lparr>cache_indices = Some cache, sample_next = k + 1\<rparr>)\<rparr>)"
  using assms by (simp add: next_index_def)

lemma read_indices_cached:
  assumes "mode_samples st (mode st) = Inr si"
    and "randcache st (mode st) = Some \<lparr>cache_indices = Some cache, sample_next = k\<rparr>"
    and "length cache = length (indices si)" and "k + n \<le> length cache"
  shows "\<exists>st2. read_indices n st = Inr (take n (drop k cache), st2)"
  using assms
proof (induction n arbitrary: st k)
  case 0
  then show ?case by simp
next
  case (Suc n)
  let ?st1 = "st\<lparr>randcache := (randcache st)
                     (mode st \<mapsto> \<lparr>cache_indices = Some cache, sample_next = k + 1\<rparr>)\<rparr>"
  have k: "k < length cache"
    using Suc.prems(4) by simp
  have step: "next_index st = Inr (cache ! k, ?st1)"
    using Suc.prems(1,2,3) k by (rule next_index_cached)
  have "mode_samples ?st1 (mode ?st1) = Inr si"
    using Suc.prems(1) by (simp add: mode_samples_def)
  moreover have "randcache ?st1 (mode ?st1) = Some \<lparr>cache_indices = Some cache, sample_next = k + 1\<rparr>"
    by simp
  moreover have "k + 1 + n \<le> length cache"
    using Suc.prems(4) by simp
  ultimately obtain st2 where "read_indices n ?st1 = Inr (take n (drop (k + 1) cache), st2)"
    using Suc.IH [of ?st1 "k + 1"] Suc.prems(3) by blast
  moreover have "take (Suc n) (drop k cache) = cache ! k # take n (drop (k + 1) cache)"
    using k by (simp add: Cons_nth_drop_Suc [symmetric])
  ultimately show ?case
    using step by simp
qed

text \<open>
  C6. For the current mode, with a partition of \<open>N \<ge> 1\<close> indices and a valid weight
  vector (finite, non-negative weights, one for each index, summing to 1 within the
  tolerance of \<open>np.random.choice\<close>), \<open>_update_randcache\<close>, called without a mode
  or with the current mode, does not raise, leaves the cursor at 0 and a cache of
  exactly \<open>N\<close> indices; the \<open>N\<close> reads that follow do not raise, and every index
  read is in the index list of the partition.
\<close>

theorem refill_then_read:
  assumes ms: "mode_samples st (mode st) = Inr si"
    and rc: "randcache st (mode st) = Some entry"
    and ne: "indices si \<noteq> []"
    and w: "weights si = map Finite ps" "length ps = length (indices si)"
      "\<forall>p \<in> set ps. 0 \<le> p" "\<bar>sum_list ps - 1\<bar> \<le> 1 / 2 ^ 26"
    and arg: "mode_arg = None \<or> mode_arg = Some (mode st)"
  shows "\<exists>st1 cache drawn st2.
           update_randcache st mode_arg = Inr st1
         \<and> randcache st1 (mode st) = Some \<lparr>cache_indices = Some cache, sample_next = 0\<rparr>
         \<and> length cache = length (indices si)
         \<and> read_indices (length (indices si)) st1 = Inr (drawn, st2)
         \<and> length drawn = length (indices si)
         \<and> set drawn \<subseteq> set (indices si)"
proof -
  let ?n = "length (indices si)"
  have target: "(case mode_arg of None \<Rightarrow> mode st
                 | Some s \<Rightarrow> if s = [] then mode st else s) = mode st"
    using arg by auto
  obtain cache where u: "update_randcache st mode_arg =
            Inr (st\<lparr>randcache := (randcache st)
                      (mode st \<mapsto> \<lparr>cache_indices = Some cache, sample_next = 0\<rparr>),
                    random_stream := (\<lambda>k. random_stream st (k + ?n))\<rparr>)"
    and l: "length cache = ?n" and s: "set cache \<subseteq> set (indices si)"
    using update_randcache_valid [OF target ms rc ne w] by blast
  let ?st1 = "st\<lparr>randcache := (randcache st)
                      (mode st \<mapsto> \<lparr>cache_indices = Some cache, sample_next = 0\<rparr>),
                    random_stream := (\<lambda>k. random_stream st (k + ?n))\<rparr>"
  have "mode_samples ?st1 (mode ?st1) = Inr si"
    using ms by (simp add: mode_samples_def)
  moreover have r1: "randcache ?st1 (mode ?st1) = Some \<lparr>cache_indices = Some cache, sample_next = 0\<rparr>"
    by simp
  moreover have "0 + ?n \<le> length cache"
    using l by simp
  ultimately obtain st2 where "read_indices ?n ?st1 = Inr (take ?n (drop 0 cache), st2)"
    using read_indices_cached [of ?st1 si cache 0 ?n] l by blast
  then have rd: "read_indices ?n ?st1 = Inr (cache, st2)"
    using l by simp
  show ?thesis
    using u r1 l rd s by (intro exI [of _ ?st1] exI [of _ cache] exI [of _ st2]) simp
qed

lemma take_at_result:
  "take_at a js = Inr xs \<Longrightarrow> length xs = length js \<and> set xs \<subseteq> set a"
proof (induction js arbitrary: xs)
  case Nil
  then show ?case by simp
next
  case (Cons j js)
  then show ?case
    by (auto split: if_splits sum.splits)
qed

lemma random_choice_result:
  assumes "random_choice a n p us = Inr xs"
  shows "length xs = length us" and "set xs \<subseteq> set a" and "a \<noteq> []"
proof -
  have "a \<noteq> [] \<and> (\<exists>js. take_at a js = Inr xs \<and> length js = length us)"
    using assms
    by (auto simp: random_choice_def finite_values_def Let_def
        split: if_splits option.splits)
  then show "length xs = length us" and "set xs \<subseteq> set a" and "a \<noteq> []"
    using take_at_result by fastforce+
qed

lemma update_randcache_result:
  assumes "update_randcache st (Some m) = Inr st1" and "m \<noteq> []"
  shows "refilled st1 m" and "sample_from_mode st1 = sample_from_mode st"
    and "modes st1 = modes st" and "\<And>m'. m' \<noteq> m \<Longrightarrow> randcache st1 m' = randcache st m'"
proof -
  obtain si where si: "mode_samples st m = Inr si"
    using assms by (auto simp: update_randcache_def split: sum.splits)
  obtain cache where c: "random_choice (indices si) (length (indices si)) (weights si)
      (map (random_stream st) [0..<length (indices si)]) = Inr cache"
    using assms si by (auto simp: update_randcache_def Let_def split: sum.splits)
  obtain entry where e: "randcache st m = Some entry"
    using assms si c by (auto simp: update_randcache_def Let_def split: option.splits)
  have e0: "entry\<lparr>cache_indices := x, sample_next := 0\<rparr>
             = \<lparr>cache_indices = x, sample_next = 0\<rparr>" for x
    by (cases entry) simp
  have st1: "st1 = st\<lparr>randcache := (randcache st)
                        (m \<mapsto> \<lparr>cache_indices = Some cache, sample_next = 0\<rparr>),
                      random_stream := (\<lambda>k. random_stream st (k + length (indices si)))\<rparr>"
    using assms si c e by (simp add: update_randcache_def Let_def e0)
  have "length cache = length (indices si)" and "indices si \<noteq> []"
    using random_choice_result [OF c] by simp_all
  then show "refilled st1 m"
    using si unfolding refilled_def st1 by (simp add: mode_samples_def)
  show "sample_from_mode st1 = sample_from_mode st" and "modes st1 = modes st"
    and "\<And>m'. m' \<noteq> m \<Longrightarrow> randcache st1 m' = randcache st m'"
    unfolding st1 by simp_all
qed

lemma refilled_kept:
  assumes "update_randcache st (Some m) = Inr st1" and "m \<noteq> []" and "refilled st m'"
  shows "refilled st1 m'"
proof (cases "m' = m")
  case True
  then show ?thesis
    using update_randcache_result(1) [OF assms(1,2)] by simp
next
  case False
  then show ?thesis
    using assms(3) update_randcache_result(2,4) [OF assms(1,2)]
    by (simp add: refilled_def mode_samples_def)
qed

lemma refill_modes_refilled:
  assumes "refill_modes st ms = Inr st'" and "[] \<notin> set ms"
  shows "(\<forall>m. refilled st m \<longrightarrow> refilled st' m) \<and> (\<forall>m \<in> set ms. refilled st' m)"
  using assms
proof (induction ms arbitrary: st)
  case Nil
  then show ?case by simp
next
  case (Cons m ms)
  from Cons.prems obtain st1 where u: "update_randcache st (Some m) = Inr st1"
    and r: "refill_modes st1 ms = Inr st'"
    by (auto split: sum.splits)
  have m: "m \<noteq> []" and ms: "[] \<notin> set ms"
    using Cons.prems(2) by auto
  have ih: "(\<forall>m. refilled st1 m \<longrightarrow> refilled st' m) \<and> (\<forall>m \<in> set ms. refilled st' m)"
    using Cons.IH [OF r ms] .
  have "refilled st1 m"
    using u m by (rule update_randcache_result(1))
  moreover have "refilled st m' \<Longrightarrow> refilled st1 m'" for m'
    using u m by (rule refilled_kept)
  ultimately show ?case
    using ih by auto
qed

lemma update_randcache_empty:
  assumes "mode_samples st m = Inr si" and "indices si = []" and "m \<noteq> []"
  shows "update_randcache st (Some m) = Inl ValueError"
proof -
  have "random_choice [] 0 p us = Inl ValueError" for p us
    by (cases p) (simp_all add: random_choice_def finite_values_def)
  then show ?thesis
    using assms by (simp add: update_randcache_def)
qed

lemma refill_modes_empty:
  assumes "m \<in> set ms" and "mode_samples st m = Inr si" and "indices si = []"
    and "[] \<notin> set ms"
  shows "\<exists>e. refill_modes st ms = Inl e"
  using assms
proof (induction ms arbitrary: st)
  case Nil
  then show ?case by simp
next
  case (Cons m' ms)
  show ?case
  proof (cases "update_randcache st (Some m')")
    case (Inl e)
    then show ?thesis by simp
  next
    case (Inr st1)
    have m': "m' \<noteq> []"
      using Cons.prems(4) by auto
    have "m' \<noteq> m"
      using update_randcache_empty [OF Cons.prems(2,3)] Inr Cons.prems(4) by auto
    then have "m \<in> set ms"
      using Cons.prems(1) by simp
    moreover have "mode_samples st1 m = Inr si"
      using Cons.prems(2) update_randcache_result(2) [OF Inr m']
      by (simp add: mode_samples_def)
    ultimately have "\<exists>e. refill_modes st1 ms = Inl e"
      using Cons.IH Cons.prems(3,4) by simp
    then show ?thesis
      using Inr by simp
  qed
qed

lemma refill_modes_valid:
  assumes "\<forall>m \<in> set ms. m \<noteq> [] \<and>
             (\<exists>si entry ps. mode_samples st m = Inr si \<and> randcache st m = Some entry
                \<and> indices si \<noteq> [] \<and> weights si = map Finite ps
                \<and> length ps = length (indices si) \<and> (\<forall>p \<in> set ps. 0 \<le> p)
                \<and> \<bar>sum_list ps - 1\<bar> \<le> 1 / 2 ^ 26)"
  shows "\<exists>st'. refill_modes st ms = Inr st'"
  using assms
proof (induction ms arbitrary: st)
  case Nil
  then show ?case by simp
next
  case (Cons m ms)
  from Cons.prems obtain si entry ps where m: "m \<noteq> []"
    and v: "mode_samples st m = Inr si" "randcache st m = Some entry" "indices si \<noteq> []"
      "weights si = map Finite ps" "length ps = length (indices si)"
      "\<forall>p \<in> set ps. 0 \<le> p" "\<bar>sum_list ps - 1\<bar> \<le> 1 / 2 ^ 26"
    by auto
  have "(case Some m of None \<Rightarrow> mode st | Some s \<Rightarrow> if s = [] then mode st else s) = m"
    using m by simp
  then obtain st1 where u: "update_randcache st (Some m) = Inr st1"
    using update_randcache_valid [OF _ v] by blast
  have same: "mode_samples st1 m' = mode_samples st m'" for m'
    using update_randcache_result(2) [OF u m] by (simp add: mode_samples_def)
  have "\<exists>entry'. randcache st1 m' = Some entry'" if "randcache st m' = Some entry" for m' entry
  proof (cases "m' = m")
    case True
    then show ?thesis
      using update_randcache_result(1) [OF u m] by (auto simp: refilled_def)
  next
    case False
    then show ?thesis
      using update_randcache_result(4) [OF u m] that by simp
  qed
  then have "\<forall>m \<in> set ms. m \<noteq> [] \<and>
             (\<exists>si entry ps. mode_samples st1 m = Inr si \<and> randcache st1 m = Some entry
                \<and> indices si \<noteq> [] \<and> weights si = map Finite ps
                \<and> length ps = length (indices si) \<and> (\<forall>p \<in> set ps. 0 \<le> p)
                \<and> \<bar>sum_list ps - 1\<bar> \<le> 1 / 2 ^ 26)"
    using Cons.prems unfolding same by (metis list.set_intros(2))
  then obtain st' where "refill_modes st1 ms = Inr st'"
    using Cons.IH by blast
  then show ?case
    using u by simp
qed

text \<open>
  C9. The constructor, once the data set is partitioned, refills the cache of every
  mode of \<open>self.modes\<close> (none of them the empty string). If the index list of one of
  these modes is empty, the constructor raises; and when the constructor returns,
  every mode has a non-empty partition, a cache of as many indices and the cursor
  at 0. So an empty partition is reported by the constructor, also for a mode that
  is never sampled.
\<close>

theorem construction_refills_every_mode:
  assumes "partition_dataset shuffle (initial_sampler ms current ht vh th stream) intervals_file = Inr st"
    and "[] \<notin> set (modes st)"
  shows "(\<forall>m \<in> set (modes st). \<forall>si. mode_samples st m = Inr si \<and> indices si = [] \<longrightarrow>
            (\<exists>e. init ms current ht vh th stream shuffle intervals_file = Inl e))
       \<and> (\<forall>st'. init ms current ht vh th stream shuffle intervals_file = Inr st' \<longrightarrow>
            (\<forall>m \<in> set (modes st). refilled st' m))"
proof -
  have i: "init ms current ht vh th stream shuffle intervals_file = refill_modes st (modes st)"
    using assms(1) by (simp add: init_def)
  show ?thesis
    unfolding i using refill_modes_empty [OF _ _ _ assms(2)] refill_modes_refilled [OF _ assms(2)]
    by blast
qed

section \<open>Properties of the proportional split\<close>









section \<open>The properties on the example sampler\<close>

lemma example_lines:
  "interval_of_line (interval_line ''1'' ''0'' ''10'') = Inr (''1'', 0, 10)"
  "interval_of_line (interval_line ''1'' ''5'' ''5'') = Inr (''1'', 5, 5)"
  "interval_of_line (interval_line ''1'' ''5'' ''25'') = Inr (''1'', 5, 25)"
  "interval_of_line (interval_line ''2'' ''0'' ''90'') = Inr (''2'', 0, 90)"
  by code_simp+

lemma example_counts: "scaled_count 3 (Proportion (34 / 100)) = Inr 1"
  by (simp add: scaled_count_def)

lemma selector_single:
  "get_indices_and_probabilities [10, 0, 90] [0] = Inr ([0], [Finite 1])"
  "get_indices_and_probabilities [10, 0, 90] [1] = Inr ([], [])"
  "get_indices_and_probabilities [10, 0, 90] [2] = Inr ([2], [Finite 1])"
  "get_indices_and_probabilities [10, 20, 90] [0] = Inr ([0], [Finite 1])"
  "get_indices_and_probabilities [10, 20, 90] [1] = Inr ([1], [Finite 1])"
  "get_indices_and_probabilities [10, 20, 90] [2] = Inr ([2], [Finite 1])"
  by (subst selector_unfold,
      simp add: kept_def true_divide_def above_threshold_def length_weights_def selector_empty)+

lemma example_slices:
  "validate_slice [0, 1, 2] 1 = [0]" "test_slice [0, 1, 2] 1 1 = [1]"
  "train_slice [0, 1, 2] (1 + 1) = [2]"
  by (simp_all add: validate_slice_def test_slice_def train_slice_def slice_to_def
      slice_from_def py_slice_def slice_bound_def)

lemma example_read:
  "read_intervals sampler_example intervals_example =
     Inr (sampler_example\<lparr>sample_from_intervals := [(''1'', 0, 10), (''1'', 5, 5), (''2'', 0, 90)],
                          interval_lengths := [10, 0, 90]\<rparr>)"
  "read_intervals sampler_example intervals_example_full =
     Inr (sampler_example\<lparr>sample_from_intervals := [(''1'', 0, 10), (''1'', 5, 25), (''2'', 0, 90)],
                          interval_lengths := [10, 20, 90]\<rparr>)"
  by (simp_all add: intervals_example_def intervals_example_full_def example_lines
      add_interval_def sampler_example_def initial_sampler_def)

lemma example_partition_steps:
  assumes "read_intervals sampler_example ls =
             Inr (sampler_example\<lparr>sample_from_intervals := ivs, interval_lengths := lens\<rparr>)"
    and "length ivs = 3"
    and "get_indices_and_probabilities lens [0] = Inr v"
    and "get_indices_and_probabilities lens [1] = Inr t"
    and "get_indices_and_probabilities lens [2] = Inr r"
  shows "partition_dataset_proportion id sampler_example ls =
     Inr (store_samples (store_samples (store_samples
            (sampler_example\<lparr>sample_from_intervals := ivs, interval_lengths := lens\<rparr>)
            ''validate'' v) ''test'' t) ''train'' r)"
proof -
  have h: "validation_holdout sampler_example = Proportion (34 / 100)"
    "test_holdout sampler_example = Proportion (34 / 100)"
    by (simp_all add: sampler_example_def initial_sampler_def)
  have up: "[0..<3] = [0, 1, 2]"
    by (simp add: upt_rec)
  show ?thesis
    unfolding partition_dataset_proportion_def assms(1)
    using assms(2-) example_counts example_slices
    by (simp add: Let_def h store_samples_def truthy_def up)
qed

lemma example_partition:
  "partition_dataset_proportion id sampler_example intervals_example = Inr partitioned_example"
  unfolding partitioned_example_def
  by (rule example_partition_steps [OF example_read(1) _ selector_single(1,2,3)]) simp

lemma example_partition_full:
  "partition_dataset_proportion id sampler_example intervals_example_full
     = Inr partitioned_example_full"
  unfolding partitioned_example_full_def
  by (rule example_partition_steps [OF example_read(2) _ selector_single(4,5,6)]) simp



theorem refill_then_read_witness:
  "mode_samples cached_example (mode cached_example)
     = Inr \<lparr>indices = [0, 2], weights = [Finite (1 / 10), Finite (9 / 10)]\<rparr>
   \<and> randcache cached_example (mode cached_example)
       = Some \<lparr>cache_indices = None, sample_next = 0\<rparr>
   \<and> (\<exists>st1 cache drawn st2.
         update_randcache cached_example None = Inr st1
       \<and> randcache st1 ''train'' = Some \<lparr>cache_indices = Some cache, sample_next = 0\<rparr>
       \<and> length cache = 2
       \<and> read_indices 2 st1 = Inr (drawn, st2)
       \<and> length drawn = 2
       \<and> set drawn \<subseteq> {0, 2})"
proof -
  let ?si = "\<lparr>indices = [0, 2], weights = [Finite (1 / 10), Finite (9 / 10)]\<rparr>"
  have m: "mode cached_example = ''train''"
    by (simp add: cached_example_def store_samples_def sampler_example_def
        initial_sampler_def)
  have ms: "mode_samples cached_example (mode cached_example) = Inr ?si"
    by (simp add: cached_example_def store_samples_def sampler_example_def
        initial_sampler_def mode_samples_def)
  have rc: "randcache cached_example (mode cached_example)
              = Some \<lparr>cache_indices = None, sample_next = 0\<rparr>"
    by (simp add: cached_example_def store_samples_def sampler_example_def
        initial_sampler_def)
  have ne: "indices ?si \<noteq> []"
    by simp
  have w: "weights ?si = map Finite [1 / 10, 9 / 10]"
    "length [1 / 10, 9 / 10 :: real] = length (indices ?si)"
    "\<forall>p \<in> set [1 / 10, 9 / 10 :: real]. 0 \<le> p"
    "\<bar>sum_list [1 / 10, 9 / 10 :: real] - 1\<bar> \<le> 1 / 2 ^ 26"
    by simp_all
  have arg: "None = None \<or> None = Some (mode cached_example)"
    by simp
  have n: "length (indices ?si) = 2" and s: "set (indices ?si) = {0, 2}"
    by simp_all
  show ?thesis
    using ms rc refill_then_read [OF ms rc ne w arg, unfolded n s m] by blast
qed

lemma example_valid_modes:
  "\<forall>m \<in> set (modes partitioned_example_full). m \<noteq> [] \<and>
     (\<exists>si entry ps. mode_samples partitioned_example_full m = Inr si
        \<and> randcache partitioned_example_full m = Some entry
        \<and> indices si \<noteq> [] \<and> weights si = map Finite ps
        \<and> length ps = length (indices si) \<and> (\<forall>p \<in> set ps. 0 \<le> p)
        \<and> \<bar>sum_list ps - 1\<bar> \<le> 1 / 2 ^ 26)"
proof -
  have "\<exists>ps. [Finite 1] = map Finite ps \<and> length ps = Suc 0 \<and> (\<forall>p \<in> set ps. 0 \<le> p)
          \<and> \<bar>sum_list ps - 1\<bar> \<le> 1 / 2 ^ 26"
    by (rule exI [of _ "[1]"]) simp
  then show ?thesis
    by (simp add: partitioned_example_full_def store_samples_def sampler_example_def
        initial_sampler_def mode_samples_def)
qed

theorem construction_refills_every_mode_witness:
  "partition_dataset id sampler_example intervals_example = Inr partitioned_example
   \<and> [] \<notin> set (modes partitioned_example)
   \<and> mode_indices partitioned_example ''test'' = []
   \<and> (\<exists>e. init [''train'', ''validate'', ''test''] ''train'' ''proportion''
              (Proportion (34 / 100)) (Proportion (34 / 100)) (\<lambda>k. 0) id intervals_example
            = Inl e)
   \<and> partition_dataset id sampler_example intervals_example_full = Inr partitioned_example_full
   \<and> (\<exists>st'. init [''train'', ''validate'', ''test''] ''train'' ''proportion''
                (Proportion (34 / 100)) (Proportion (34 / 100)) (\<lambda>k. 0) id
                intervals_example_full = Inr st'
          \<and> refilled st' ''train'' \<and> refilled st' ''validate'' \<and> refilled st' ''test'')"
proof -
  let ?init = "init [''train'', ''validate'', ''test''] ''train'' ''proportion''
                (Proportion (34 / 100)) (Proportion (34 / 100)) (\<lambda>k. 0) id"
  have ht: "holdout_type sampler_example \<noteq> ''chromosome''"
    by (simp add: sampler_example_def initial_sampler_def)
  have p1: "partition_dataset id sampler_example intervals_example = Inr partitioned_example"
    and p2: "partition_dataset id sampler_example intervals_example_full
               = Inr partitioned_example_full"
    using ht by (simp_all add: partition_dataset_def example_partition example_partition_full)
  have m1: "modes partitioned_example = [''train'', ''validate'', ''test'']"
    and m2: "modes partitioned_example_full = [''train'', ''validate'', ''test'']"
    by (simp_all add: partitioned_example_def partitioned_example_full_def store_samples_def
        sampler_example_def initial_sampler_def)
  have n1: "[] \<notin> set (modes partitioned_example)"
    and n2: "[] \<notin> set (modes partitioned_example_full)"
    unfolding m1 m2 by simp_all
  have t: "mode_samples partitioned_example ''test'' = Inr \<lparr>indices = [], weights = []\<rparr>"
    by (simp add: partitioned_example_def store_samples_def mode_samples_def)
  then have ti: "mode_indices partitioned_example ''test'' = []"
    by (simp add: mode_indices_def)
  note c1 = construction_refills_every_mode [OF p1 [unfolded sampler_example_def] n1]
  have raise: "\<exists>e. ?init intervals_example = Inl e"
    using c1 t unfolding m1 by auto
  obtain st' where ok: "?init intervals_example_full = Inr st'"
    using refill_modes_valid [OF example_valid_modes] p2
    by (auto simp: init_def sampler_example_def)
  note c2 = construction_refills_every_mode [OF p2 [unfolded sampler_example_def] n2]
  have "refilled st' ''train'' \<and> refilled st' ''validate'' \<and> refilled st' ''test''"
    using c2 ok unfolding m2 by simp
  then show ?thesis
    using p1 n1 ti raise p2 ok by blast
qed

end
